theory Spec2Isabelle
  imports Main
begin

section \<open>Columnar output: the model of \<open>llnl/util/tty/colify.py\<close>\<close>

text \<open>
  The module is Python 2: \<open>/\<close> on integers is floor division (HOL's \<open>div\<close> on
  \<open>int\<close> and \<open>nat\<close>), \<open>len\<close> of a \<open>str\<close> counts bytes (\<open>length\<close> of a
  \<open>string\<close>), and integers are unbounded (\<open>int\<close>). Every exception the code can
  raise is a value of \<open>error\<close>; a function that can raise returns \<open>error + 'a\<close>.
\<close>

subsection \<open>Errors and dynamically typed option values\<close>

datatype error =
    TypeError string
  | ValueError string
  | NameError string
  | AttributeError
  | ZeroDivisionError
  | IndexError

text \<open>
  The values a keyword option can hold. \<open>PyInt n\<close> is a value of type \<open>int\<close>
  (values of other numeric types are not modelled). \<open>PyFile b\<close> is a file object
  whose \<open>isatty()\<close> answers \<open>b\<close>; what is written to it is returned by the
  model as the list of the strings passed to \<open>write\<close>, in order.
\<close>

datatype pyval = PyNone | PyBool bool | PyInt int | PyStr string | PyFile bool

fun truthy :: "pyval \<Rightarrow> bool" where
  "truthy PyNone = False"
| "truthy (PyBool b) = b"
| "truthy (PyInt n) = (n \<noteq> 0)"
| "truthy (PyStr s) = (s \<noteq> [])"
| "truthy (PyFile b) = True"

text \<open>An operand of integer arithmetic: \<open>bool\<close> is a subclass of \<open>int\<close>.\<close>

fun as_int :: "pyval \<Rightarrow> error + int" where
  "as_int (PyInt n) = Inr n"
| "as_int (PyBool b) = Inr (if b then 1 else 0)"
| "as_int v = Inl (TypeError ''unsupported operand type(s)'')"

definition py_div :: "int \<Rightarrow> int \<Rightarrow> error + int" where
  "py_div a b = (if b = 0 then Inl ZeroDivisionError else Inr (a div b))"

text \<open>\<open>min\<close> and \<open>max\<close> of a sequence raise \<open>ValueError\<close> on an empty one.\<close>

fun py_min :: "nat list \<Rightarrow> error + nat" where
  "py_min [] = Inl (ValueError ''min() arg is an empty sequence'')"
| "py_min (x # xs) = Inr (fold min xs x)"

fun py_max :: "nat list \<Rightarrow> error + nat" where
  "py_max [] = Inl (ValueError ''max() arg is an empty sequence'')"
| "py_max (x # xs) = Inr (fold max xs x)"

subsection \<open>\<open>ColumnConfig\<close>\<close>

record ColumnConfig =
  cols :: nat
  line_length :: int
  valid :: bool
  widths :: "int list"

definition ColumnConfig_init :: "nat \<Rightarrow> ColumnConfig" where
  "ColumnConfig_init c = \<lparr>cols = c, line_length = 0, valid = True, widths = replicate c 0\<rparr>"

subsection \<open>\<open>config_variable_cols\<close>\<close>

text \<open>
  The body of the inner loop (lines 68 to 77) for the label with index \<open>elt\<close> and
  length \<open>len\<close> and the candidate with index \<open>i\<close> (which has \<open>i + 1\<close> columns);
  \<open>n\<close> is \<open>len(elts)\<close>. In the pass \<open>elt < n\<close>, so the divisor
  \<open>(n + i) / (i + 1)\<close> is positive and \<open>col\<close> is an index of \<open>conf.widths\<close>
  (lemmas \<open>rows_pos\<close> and \<open>col_of_less\<close> below): neither the division nor the
  indexing raises there.
\<close>

definition update_conf ::
  "nat \<Rightarrow> int \<Rightarrow> int \<Rightarrow> nat \<Rightarrow> nat \<Rightarrow> nat \<Rightarrow> ColumnConfig \<Rightarrow> ColumnConfig" where
  "update_conf n console_width padding elt len i conf =
     (if valid conf then
        (let col = elt div ((n + i) div (i + 1));
             padded = (if col < i then int len + padding else int len)
         in if widths conf ! col < padded then
              (let ll = line_length conf + (padded - widths conf ! col)
               in conf\<lparr>line_length := ll,
                       widths := (widths conf)[col := padded],
                       valid := (ll < console_width)\<rparr>)
            else conf)
      else conf)"

text \<open>The inner loop over \<open>enumerate(configs)\<close>, and the outer loop over \<open>enumerate(lengths)\<close>.\<close>

definition pass_configs ::
  "nat \<Rightarrow> int \<Rightarrow> int \<Rightarrow> nat \<Rightarrow> nat \<Rightarrow> ColumnConfig list \<Rightarrow> ColumnConfig list" where
  "pass_configs n console_width padding elt len configs =
     map (\<lambda>(i, conf). update_conf n console_width padding elt len i conf) (List.enumerate 0 configs)"

fun pass_elts ::
  "nat \<Rightarrow> int \<Rightarrow> int \<Rightarrow> (nat \<times> nat) list \<Rightarrow> ColumnConfig list \<Rightarrow> ColumnConfig list" where
  "pass_elts n console_width padding [] configs = configs"
| "pass_elts n console_width padding ((elt, len) # rest) configs =
     pass_elts n console_width padding rest (pass_configs n console_width padding elt len configs)"

text \<open>Lines 59 to 77: the bound on the number of columns and the shared pass.\<close>

definition variable_configs :: "string list \<Rightarrow> int \<Rightarrow> int \<Rightarrow> error + ColumnConfig list" where
  "variable_configs elts console_width padding =
     (let lengths = map length elts in
      case py_min lengths of
        Inl e \<Rightarrow> Inl e
      | Inr m \<Rightarrow>
          (case py_div console_width (int m + padding) of
             Inl e \<Rightarrow> Inl e
           | Inr q \<Rightarrow>
               (let max_cols = min (int (length elts)) (max 1 q);
                    configs = map ColumnConfig_init [1..<nat (max_cols + 1)]
                in Inr (pass_elts (length elts) console_width padding
                          (List.enumerate 0 lengths) configs))))"

text \<open>Lines 79 to 83: the last valid candidate, or \<open>configs[0]\<close>.\<close>

definition select_config :: "ColumnConfig list \<Rightarrow> error + ColumnConfig" where
  "select_config configs =
     (case List.find valid (rev configs) of
        Some conf \<Rightarrow> Inr conf
      | None \<Rightarrow> (case configs of [] \<Rightarrow> Inl IndexError | conf # _ \<Rightarrow> Inr conf))"

text \<open>Lines 85 to 87.\<close>

definition strip_config :: "ColumnConfig \<Rightarrow> ColumnConfig" where
  "strip_config config =
     config\<lparr>widths := filter (\<lambda>w. w \<noteq> 0) (widths config),
            cols := length (filter (\<lambda>w. w \<noteq> 0) (widths config))\<rparr>"

definition config_variable_cols :: "string list \<Rightarrow> int \<Rightarrow> int \<Rightarrow> error + ColumnConfig" where
  "config_variable_cols elts console_width padding =
     (case variable_configs elts console_width padding of
        Inl e \<Rightarrow> Inl e
      | Inr configs \<Rightarrow>
          (case select_config configs of
             Inl e \<Rightarrow> Inl e
           | Inr config \<Rightarrow> Inr (strip_config config)))"

subsection \<open>\<open>config_uniform_cols\<close>\<close>

definition config_uniform_cols :: "string list \<Rightarrow> int \<Rightarrow> int \<Rightarrow> error + ColumnConfig" where
  "config_uniform_cols elts console_width padding =
     (case py_max (map length elts) of
        Inl e \<Rightarrow> Inl e
      | Inr m \<Rightarrow>
          (let max_len = int m + padding in
           case py_div console_width max_len of
             Inl e \<Rightarrow> Inl e
           | Inr q \<Rightarrow>
               (let ncols = nat (min (int (length elts)) (max 1 q))
                in Inr ((ColumnConfig_init ncols)\<lparr>widths := replicate ncols max_len\<rparr>))))"

subsection \<open>\<open>colify\<close>\<close>

text \<open>\<open>options.pop(key, default)\<close> on the keyword dictionary, an association list
  whose order is the dictionary's iteration order.\<close>

definition pop :: "string \<Rightarrow> pyval \<Rightarrow> (string \<times> pyval) list \<Rightarrow> pyval \<times> (string \<times> pyval) list" where
  "pop k d options =
     ((case map_of options k of None \<Rightarrow> d | Some v \<Rightarrow> v), filter (\<lambda>kv. fst kv \<noteq> k) options)"

definition invalid_keyword :: "string \<Rightarrow> string" where
  "invalid_keyword k =
     [CHR 0x27] @ k @ [CHR 0x27] @ '' is an invalid keyword argument for this function.''"

definition newline :: string where
  "newline = [CHR 0x0A]"

text \<open>A format of the list \<open>formats\<close>: \<open>"%-<width>s"\<close> or \<open>"%s"\<close>. A negative
  width prints as a second \<open>-\<close> flag, so the field width is its absolute value.\<close>

datatype format = LeftJustified int | Plain

fun apply_format :: "format \<Rightarrow> string \<Rightarrow> string" where
  "apply_format Plain s = s"
| "apply_format (LeftJustified w) s = s @ replicate (nat \<bar>w\<bar> - length s) CHR '' ''"

text \<open>
  The inner loop of the renderer (lines 177 to 179) over the columns still to
  write: the strings written so far are kept when \<open>formats[col]\<close> or
  \<open>elts[elt]\<close> raises.
\<close>

fun write_cols ::
  "string list \<Rightarrow> format list \<Rightarrow> nat \<Rightarrow> nat \<Rightarrow> nat list \<Rightarrow> string list \<Rightarrow> error option \<times> string list" where
  "write_cols elts formats rows row [] out = (None, out)"
| "write_cols elts formats rows row (col # cs) out =
     (let elt = col * rows + row in
      if col < length formats \<and> elt < length elts
      then write_cols elts formats rows row cs (out @ [apply_format (formats ! col) (elts ! elt)])
      else (Some IndexError, out))"

text \<open>The outer loop (lines 175 to 184) over the rows still to write, with the
  current value \<open>ncols\<close> of the local variable \<open>cols\<close> (it is at least 1 when
  it is decremented, which happens for one row at most).\<close>

fun write_rows ::
  "string list \<Rightarrow> int \<Rightarrow> format list \<Rightarrow> nat \<Rightarrow> nat \<Rightarrow> nat list \<Rightarrow> nat \<Rightarrow> string list
     \<Rightarrow> error option \<times> string list" where
  "write_rows elts indent formats rows rows_last_col [] ncols out = (None, out)"
| "write_rows elts indent formats rows rows_last_col (row # rs) ncols out =
     (case write_cols elts formats rows row [0..<ncols] (out @ [replicate (nat indent) CHR '' '']) of
        (Some e, out') \<Rightarrow> (Some e, out')
      | (None, out') \<Rightarrow>
          write_rows elts indent formats rows rows_last_col rs
            (if Suc row = rows_last_col then ncols - 1 else ncols) (out' @ [newline]))"

text \<open>Lines 168 to 186. \<open>output\<close> is first used by the first \<open>write\<close>.\<close>

definition render ::
  "pyval \<Rightarrow> string list \<Rightarrow> int \<Rightarrow> ColumnConfig \<Rightarrow> (error + nat \<times> int list) \<times> string list" where
  "render output elts indent config =
     (let formats = map LeftJustified (butlast (widths config)) @ [Plain] in
      if cols config = 0 then (Inl ZeroDivisionError, [])
      else
        (let rows = (length elts + cols config - 1) div cols config in
         if rows = 0 then (Inl ZeroDivisionError, [])
         else
           (let rows_last_col = length elts mod rows in
            case output of
              PyFile t \<Rightarrow>
                (case write_rows elts indent formats rows rows_last_col [0..<rows] (cols config) [] of
                   (Some e, out) \<Rightarrow> (Inl e, out)
                 | (None, out) \<Rightarrow> (Inr (cols config, widths config), out))
            | _ \<Rightarrow> (Inl AttributeError, []))))"

text \<open>Lines 153 to 157: the width option, or the terminal's.\<close>

definition console_cols_of :: "int \<times> int \<Rightarrow> pyval \<Rightarrow> error + int" where
  "console_cols_of terminal_size width =
     (if \<not> truthy width then Inr (snd terminal_size)
      else (case width of
              PyInt n \<Rightarrow> Inr n
            | _ \<Rightarrow> Inl (ValueError ''Number of columns must be an int'')))"

text \<open>Lines 160 to 166. The name \<open>allowed_methods\<close> is bound nowhere in the module,
  so evaluating the message of the \<open>ValueError\<close> raises \<open>NameError\<close>.\<close>

definition choose_method :: "pyval \<Rightarrow> string list \<Rightarrow> int \<Rightarrow> pyval \<Rightarrow> error + ColumnConfig" where
  "choose_method method elts console_cols padding =
     (if method = PyStr ''variable'' then
        (case as_int padding of
           Inl e \<Rightarrow> Inl e
         | Inr p \<Rightarrow> config_variable_cols elts console_cols p)
      else if method = PyStr ''uniform'' then
        (case as_int padding of
           Inl e \<Rightarrow> Inl e
         | Inr p \<Rightarrow> config_uniform_cols elts console_cols p)
      else Inl (NameError ''allowed_methods''))"

text \<open>Lines 153 to 186, once the call has not taken the one-label-per-line path.\<close>

definition colify_columns ::
  "int \<times> int \<Rightarrow> pyval \<Rightarrow> pyval \<Rightarrow> pyval \<Rightarrow> pyval \<Rightarrow> pyval \<Rightarrow> string list
     \<Rightarrow> (error + nat \<times> int list) \<times> string list" where
  "colify_columns terminal_size output indent padding method width elts =
     (case console_cols_of terminal_size width of
        Inl e \<Rightarrow> (Inl e, [])
      | Inr w \<Rightarrow>
          (case as_int indent of
             Inl e \<Rightarrow> (Inl e, [])
           | Inr ind \<Rightarrow>
               (case choose_method method elts (max 1 (w - ind)) padding of
                  Inl e \<Rightarrow> (Inl e, [])
                | Inr config \<Rightarrow> render output elts ind config)))"

text \<open>Lines 145 to 151: one label per line.\<close>

definition colify_lines :: "pyval \<Rightarrow> string list \<Rightarrow> (error + nat \<times> int list) \<times> string list" where
  "colify_lines output elts =
     (case output of
        PyFile t \<Rightarrow>
          (case py_max (map length elts) of
             Inl e \<Rightarrow> (Inl e, map (\<lambda>elt. elt @ newline) elts)
           | Inr maxlen \<Rightarrow> (Inr (1, [int maxlen]), map (\<lambda>elt. elt @ newline) elts))
      | _ \<Rightarrow> (Inl AttributeError, []))"

text \<open>Lines 140 to 186, once the keyword options are read: the empty input,
  the choice between the two paths.\<close>

definition colify_body ::
  "int \<times> int \<Rightarrow> pyval \<Rightarrow> pyval \<Rightarrow> pyval \<Rightarrow> pyval \<Rightarrow> pyval \<Rightarrow> pyval \<Rightarrow> string list
     \<Rightarrow> (error + nat \<times> int list) \<times> string list" where
  "colify_body terminal_size output indent padding tty method console_cols elts =
     (if elts = [] then (Inr (0, []), [])
      else if truthy tty
        then colify_columns terminal_size output indent padding method console_cols elts
      else if tty = PyBool False then colify_lines output elts
      else (case output of
              PyFile t \<Rightarrow>
                if \<not> t then colify_lines output elts
                else colify_columns terminal_size output indent padding method console_cols elts
            | _ \<Rightarrow> (Inl AttributeError, [])))"

text \<open>
  \<open>colify\<close>: \<open>stdout\<close> is \<open>sys.stdout\<close>, \<open>terminal_size\<close> what
  \<open>terminal_size()\<close> returns, \<open>elts\<close> the labels after \<open>str\<close>. The result is what
  the call returns or raises, with the strings written to \<open>output\<close>.
\<close>

definition colify ::
  "pyval \<Rightarrow> int \<times> int \<Rightarrow> string list \<Rightarrow> (string \<times> pyval) list
     \<Rightarrow> (error + nat \<times> int list) \<times> string list" where
  "colify stdout terminal_size elts options =
     (let (output, o1) = pop ''output'' stdout options;
          (indent, o2) = pop ''indent'' (PyInt 0) o1;
          (padding, o3) = pop ''padding'' (PyInt 2) o2;
          (tty, o4) = pop ''tty'' PyNone o3;
          (method, o5) = pop ''method'' (PyStr ''variable'') o4;
          (console_cols, o6) = pop ''width'' PyNone o5
      in case o6 of
           kv # _ \<Rightarrow> (Inl (TypeError (invalid_keyword (fst kv))), [])
         | [] \<Rightarrow> colify_body terminal_size output indent padding tty method console_cols elts)"

subsection \<open>Reading the keyword options\<close>

text \<open>The keys \<open>colify\<close> pops, the entries it leaves in the dictionary, and the
  value a \<open>pop\<close> with a default returns.\<close>

definition option_names :: "string list" where
  "option_names = [''output'', ''indent'', ''padding'', ''tty'', ''method'', ''width'']"

definition unknown_options :: "(string \<times> pyval) list \<Rightarrow> (string \<times> pyval) list" where
  "unknown_options options = filter (\<lambda>kv. fst kv \<notin> set option_names) options"

definition option_value :: "string \<Rightarrow> pyval \<Rightarrow> (string \<times> pyval) list \<Rightarrow> pyval" where
  "option_value k d options = (case map_of options k of None \<Rightarrow> d | Some v \<Rightarrow> v)"

subsection \<open>The pass, one candidate at a time\<close>

text \<open>
  The candidates do not interact: the state of candidate \<open>i\<close> after the labels
  \<open>xs\<close> is the fold of \<open>update_conf\<close> over them. \<open>candidate_state\<close> is candidate
  \<open>i\<close> of \<open>m\<close> after the first \<open>k\<close> labels of the pass, \<open>final_state\<close> the candidate
  after the whole pass, \<open>max_cols_of\<close> the number of candidates when the division
  is defined; \<open>col_of\<close> and \<open>padded_len\<close> name the column and the padded length
  that \<open>update_conf\<close> computes.
\<close>

definition conf_after ::
  "nat \<Rightarrow> int \<Rightarrow> int \<Rightarrow> nat \<Rightarrow> (nat \<times> nat) list \<Rightarrow> ColumnConfig \<Rightarrow> ColumnConfig" where
  "conf_after n w p i xs conf = fold (\<lambda>x. update_conf n w p (fst x) (snd x) i) xs conf"

definition candidate_state :: "nat list \<Rightarrow> int \<Rightarrow> int \<Rightarrow> nat \<Rightarrow> nat \<Rightarrow> nat \<Rightarrow> ColumnConfig" where
  "candidate_state lengths w p m i k =
     pass_elts (length lengths) w p (take k (List.enumerate 0 lengths))
       (map ColumnConfig_init [1..<m + 1]) ! i"

definition col_of :: "nat \<Rightarrow> nat \<Rightarrow> nat \<Rightarrow> nat" where
  "col_of n i elt = elt div ((n + i) div (i + 1))"

definition padded_len :: "int \<Rightarrow> nat \<Rightarrow> nat \<Rightarrow> nat \<Rightarrow> int" where
  "padded_len p i col len = (if col < i then int len + p else int len)"

definition conf_inv :: "nat \<Rightarrow> ColumnConfig \<Rightarrow> bool" where
  "conf_inv i c \<longleftrightarrow>
     length (widths c) = i + 1 \<and> line_length c = sum_list (widths c) \<and> (\<forall>x\<in>set (widths c). 0 \<le> x)"

definition max_cols_of :: "string list \<Rightarrow> int \<Rightarrow> int \<Rightarrow> nat" where
  "max_cols_of elts w p =
     nat (min (int (length elts)) (max 1 (w div (int (Min (set (map length elts))) + p))))"

definition final_state :: "string list \<Rightarrow> int \<Rightarrow> int \<Rightarrow> nat \<Rightarrow> ColumnConfig" where
  "final_state elts w p i =
     conf_after (length elts) w p i (List.enumerate 0 (map length elts)) (ColumnConfig_init (i + 1))"

section \<open>Facts about the model\<close>

subsection \<open>The keyword options\<close>

lemma map_of_filter_other:
  "k' \<noteq> k \<Longrightarrow> map_of (filter (\<lambda>kv. fst kv \<noteq> k) options) k' = map_of options k'"
  by (induction options) auto

lemma fst_pop: "fst (pop k d options) = option_value k d options"
  by (simp add: pop_def option_value_def)

lemma snd_pop: "snd (pop k d options) = filter (\<lambda>kv. fst kv \<noteq> k) options"
  by (simp add: pop_def)

lemma option_value_filter:
  "k' \<noteq> k \<Longrightarrow> option_value k' d (filter (\<lambda>kv. fst kv \<noteq> k) options) = option_value k' d options"
  by (simp add: option_value_def map_of_filter_other)

lemma unknown_options_pops:
  "filter (\<lambda>kv. fst kv \<noteq> ''width'') (filter (\<lambda>kv. fst kv \<noteq> ''method'')
     (filter (\<lambda>kv. fst kv \<noteq> ''tty'') (filter (\<lambda>kv. fst kv \<noteq> ''padding'')
       (filter (\<lambda>kv. fst kv \<noteq> ''indent'') (filter (\<lambda>kv. fst kv \<noteq> ''output'') options)))))
   = unknown_options options"
  unfolding unknown_options_def option_names_def filter_filter
  by (rule filter_cong) auto

lemma colify_unfold:
  "colify stdout ts elts options =
     (case unknown_options options of
        kv # _ \<Rightarrow> (Inl (TypeError (invalid_keyword (fst kv))), [])
      | [] \<Rightarrow> colify_body ts (option_value ''output'' stdout options)
                (option_value ''indent'' (PyInt 0) options)
                (option_value ''padding'' (PyInt 2) options)
                (option_value ''tty'' PyNone options)
                (option_value ''method'' (PyStr ''variable'') options)
                (option_value ''width'' PyNone options) elts)"
  unfolding colify_def
  by (simp add: case_prod_beta fst_pop snd_pop option_value_filter unknown_options_pops
     del: filter_filter cong: list.case_cong)

lemma py_max_eq: "xs \<noteq> [] \<Longrightarrow> py_max xs = Inr (Max (set xs))"
  by (cases xs) (simp_all add: Max.set_eq_fold del: set_simps)

lemma py_min_eq: "xs \<noteq> [] \<Longrightarrow> py_min xs = Inr (Min (set xs))"
  by (cases xs) (simp_all add: Min.set_eq_fold del: set_simps)

subsection \<open>The pass, one candidate at a time\<close>

lemma length_pass_configs [simp]: "length (pass_configs n w p elt len cs) = length cs"
  by (simp add: pass_configs_def)

lemma nth_pass_configs:
  "i < length cs \<Longrightarrow> pass_configs n w p elt len cs ! i = update_conf n w p elt len i (cs ! i)"
  by (simp add: pass_configs_def nth_enumerate_eq)

lemma length_pass_elts [simp]: "length (pass_elts n w p xs cs) = length cs"
  by (induction xs arbitrary: cs) auto

lemma nth_pass_elts:
  "i < length cs \<Longrightarrow> pass_elts n w p xs cs ! i = conf_after n w p i xs (cs ! i)"
  by (induction xs arbitrary: cs) (auto simp: conf_after_def nth_pass_configs)

lemma conf_after_Nil [simp]: "conf_after n w p i [] c = c"
  by (simp add: conf_after_def)

lemma conf_after_append:
  "conf_after n w p i (xs @ ys) c = conf_after n w p i ys (conf_after n w p i xs c)"
  by (simp add: conf_after_def)

lemma conf_after_Cons:
  "conf_after n w p i (x # xs) c = conf_after n w p i xs (update_conf n w p (fst x) (snd x) i c)"
  by (simp add: conf_after_def)

lemma update_conf_invalid: "\<not> valid c \<Longrightarrow> update_conf n w p elt len i c = c"
  by (simp add: update_conf_def)

lemma conf_after_invalid: "\<not> valid c \<Longrightarrow> conf_after n w p i xs c = c"
  by (induction xs) (simp_all add: conf_after_Cons update_conf_invalid)

lemma update_conf_valid_iff:
  "valid c = (line_length c < w) \<Longrightarrow>
   valid (update_conf n w p elt len i c) = (line_length (update_conf n w p elt len i c) < w)"
  by (simp add: update_conf_def Let_def)

lemma conf_after_valid_iff:
  "valid c = (line_length c < w) \<Longrightarrow>
   valid (conf_after n w p i xs c) = (line_length (conf_after n w p i xs c) < w)"
  by (induction xs arbitrary: c) (simp_all add: conf_after_Cons update_conf_valid_iff)

lemma nth_initial_configs:
  "i < m \<Longrightarrow> map ColumnConfig_init [1..<m + 1] ! i = ColumnConfig_init (i + 1)"
proof -
  assume "i < m"
  then have "i < length [1..<m + 1]" and "[1..<m + 1] ! i = 1 + i"
    by (simp_all del: upt_Suc)
  then show ?thesis by (simp del: upt_Suc)
qed

lemma candidate_state_eq:
  "i < m \<Longrightarrow> candidate_state lengths w p m i k =
     conf_after (length lengths) w p i (take k (List.enumerate 0 lengths)) (ColumnConfig_init (i + 1))"
  unfolding candidate_state_def
  by (subst nth_pass_elts) (simp_all add: nth_initial_configs del: upt_Suc)

subsection \<open>Columns, rows and the invariant of a candidate\<close>

lemma update_conf_eq:
  "update_conf n w p elt len i c =
     (if valid c \<and> widths c ! col_of n i elt < padded_len p i (col_of n i elt) len
      then c\<lparr>line_length := line_length c + (padded_len p i (col_of n i elt) len - widths c ! col_of n i elt),
             widths := (widths c)[col_of n i elt := padded_len p i (col_of n i elt) len],
             valid := (line_length c + (padded_len p i (col_of n i elt) len - widths c ! col_of n i elt) < w)\<rparr>
      else c)"
  by (simp add: update_conf_def col_of_def padded_len_def Let_def)

lemma rows_pos: "0 < (n::nat) \<Longrightarrow> 0 < (n + i) div (i + 1)"
  by (simp add: div_greater_zero_iff)

lemma rows_mult_ge: "(n::nat) \<le> ((n + i) div (i + 1)) * (i + 1)"
proof -
  have "((n + i) div (i + 1)) * (i + 1) + (n + i) mod (i + 1) = n + i"
    by (rule div_mult_mod_eq)
  moreover have "(n + i) mod (i + 1) < i + 1"
    by (rule mod_less_divisor) simp
  ultimately show ?thesis by arith
qed

lemma col_of_less: "elt < n \<Longrightarrow> col_of n i elt < i + 1"
proof -
  assume a: "elt < n"
  then have "0 < (n + i) div (i + 1)" using rows_pos [of n i] by simp
  moreover have "elt < (i + 1) * ((n + i) div (i + 1))"
    using a rows_mult_ge [of n i] by (simp add: mult.commute)
  ultimately show ?thesis
    unfolding col_of_def by (simp only: div_less_iff_less_mult)
qed

lemma sum_list_update_int:
  "k < length xs \<Longrightarrow> sum_list (xs[k := x]) = sum_list xs + x - xs ! k" for xs :: "int list"
  by (induction xs arbitrary: k) (auto split: nat.splits)

lemma update_conf_inv:
  assumes "conf_inv i c" and "elt < n"
  shows "conf_inv i (update_conf n w p elt len i c)"
proof (cases "valid c \<and> widths c ! col_of n i elt < padded_len p i (col_of n i elt) len")
  case False
  then show ?thesis using assms(1) by (auto simp: update_conf_eq)
next
  case True
  let ?col = "col_of n i elt"
  let ?v = "padded_len p i ?col len"
  have col: "?col < length (widths c)"
    using assms col_of_less [of elt n i] by (simp add: conf_inv_def)
  then have "0 \<le> widths c ! ?col" using assms(1) by (simp add: conf_inv_def)
  then have v: "0 \<le> ?v" using True by linarith
  have "\<forall>x\<in>set ((widths c)[?col := ?v]). 0 \<le> x"
    using set_update_subset_insert [of "widths c" ?col ?v] assms(1) v
    by (auto simp: conf_inv_def)
  moreover have "sum_list ((widths c)[?col := ?v]) = sum_list (widths c) + ?v - widths c ! ?col"
    using col by (rule sum_list_update_int)
  ultimately show ?thesis
    using True assms(1) by (simp add: update_conf_eq conf_inv_def)
qed

lemma conf_after_inv:
  "conf_inv i c \<Longrightarrow> \<forall>x\<in>set xs. fst x < n \<Longrightarrow> conf_inv i (conf_after n w p i xs c)"
  by (induction xs arbitrary: c) (simp_all add: conf_after_Cons update_conf_inv)

lemma conf_inv_init: "conf_inv i (ColumnConfig_init (i + 1))"
  by (simp add: conf_inv_def ColumnConfig_init_def sum_list_replicate)

lemma sum_list_filter_nonzero: "sum_list (filter (\<lambda>w. w \<noteq> 0) ws) = sum_list (ws :: int list)"
  by (induction ws) auto

subsection \<open>What the variable strategy returns\<close>

lemma max_cols_of_pos: "elts \<noteq> [] \<Longrightarrow> 0 < max_cols_of elts w p"
  by (cases elts) (simp_all add: max_cols_of_def)

lemma variable_configs_Inr:
  assumes "elts \<noteq> []" and "int (Min (set (map length elts))) + p \<noteq> 0"
  shows "variable_configs elts w p = Inr (map (final_state elts w p) [0..<max_cols_of elts w p])"
proof -
  let ?m = "max_cols_of elts w p"
  let ?cs = "pass_elts (length elts) w p (List.enumerate 0 (map length elts))
               (map ColumnConfig_init [1..<?m + 1])"
  have "nat (min (int (length elts)) (max 1 (w div (int (Min (set (map length elts))) + p))) + 1)
          = ?m + 1"
    by (simp add: max_cols_of_def)
  then have "variable_configs elts w p = Inr ?cs"
    using assms by (simp add: variable_configs_def py_min_eq py_div_def Let_def del: upt_Suc)
  moreover have "?cs = map (final_state elts w p) [0..<?m]"
  proof (rule nth_equalityI)
    show "length ?cs = length (map (final_state elts w p) [0..<?m])"
      by (simp del: upt_Suc)
  next
    fix i assume "i < length ?cs"
    then have i: "i < ?m" by (simp del: upt_Suc)
    then have "?cs ! i = conf_after (length elts) w p i (List.enumerate 0 (map length elts))
                 (map ColumnConfig_init [1..<?m + 1] ! i)"
      by (subst nth_pass_elts) (simp_all del: upt_Suc)
    then show "?cs ! i = map (final_state elts w p) [0..<?m] ! i"
      using i by (simp add: final_state_def nth_initial_configs del: upt_Suc)
  qed
  ultimately show ?thesis by simp
qed

lemma select_config_snoc:
  "select_config (cs @ [c]) = (if valid c \<or> cs = [] then Inr c else select_config cs)"
  by (cases cs) (simp_all add: select_config_def split: option.splits)

lemma select_config_cases:
  "cs \<noteq> [] \<Longrightarrow> \<exists>j<length cs. select_config cs = Inr (cs ! j)
      \<and> (\<forall>j'. j < j' \<and> j' < length cs \<longrightarrow> \<not> valid (cs ! j')) \<and> (valid (cs ! j) \<or> j = 0)"
proof (induction cs rule: rev_induct)
  case Nil
  then show ?case by simp
next
  case (snoc c cs)
  show ?case
  proof (cases "valid c \<or> cs = []")
    case True
    then have "select_config (cs @ [c]) = Inr ((cs @ [c]) ! length cs)"
      by (simp add: select_config_snoc)
    moreover have "valid ((cs @ [c]) ! length cs) \<or> length cs = 0"
      using True by auto
    ultimately show ?thesis
      by (intro exI [of _ "length cs"]) auto
  next
    case False
    then obtain j where j: "j < length cs" "select_config cs = Inr (cs ! j)"
      "\<forall>j'. j < j' \<and> j' < length cs \<longrightarrow> \<not> valid (cs ! j')" "valid (cs ! j) \<or> j = 0"
      using snoc.IH by auto
    have "\<forall>j'. j < j' \<and> j' < length (cs @ [c]) \<longrightarrow> \<not> valid ((cs @ [c]) ! j')"
      using j(3) False by (auto simp: nth_append less_Suc_eq)
    then show ?thesis
      using j False by (intro exI [of _ j]) (simp add: select_config_snoc nth_append)
  qed
qed

lemma final_state_inv: "conf_inv i (final_state elts w p i)"
  unfolding final_state_def
  by (rule conf_after_inv [OF conf_inv_init]) (simp add: in_set_enumerate_eq)

lemma final_state_valid_iff:
  "1 \<le> w \<Longrightarrow> valid (final_state elts w p i) = (line_length (final_state elts w p i) < w)"
  unfolding final_state_def
  by (rule conf_after_valid_iff) (simp add: ColumnConfig_init_def)

lemma variable_configs_Inl:
  "elts = [] \<or> int (Min (set (map length elts))) + p = 0 \<Longrightarrow> \<exists>e. variable_configs elts w p = Inl e"
  by (cases "elts = []") (auto simp: variable_configs_def py_min_eq py_div_def)

lemma config_variable_cols_Inr:
  assumes "elts \<noteq> []" and "int (Min (set (map length elts))) + p \<noteq> 0"
  shows "\<exists>j<max_cols_of elts w p.
           config_variable_cols elts w p = Inr (strip_config (final_state elts w p j))
           \<and> (\<forall>j'. j < j' \<and> j' < max_cols_of elts w p \<longrightarrow> \<not> valid (final_state elts w p j'))
           \<and> (valid (final_state elts w p j) \<or> j = 0)"
proof -
  let ?cs = "map (final_state elts w p) [0..<max_cols_of elts w p]"
  have "?cs \<noteq> []" using max_cols_of_pos [OF assms(1)] by simp
  from select_config_cases [OF this]
  obtain j where j: "j < length ?cs" "select_config ?cs = Inr (?cs ! j)"
    "\<forall>j'. j < j' \<and> j' < length ?cs \<longrightarrow> \<not> valid (?cs ! j')" "valid (?cs ! j) \<or> j = 0"
    by blast
  have "config_variable_cols elts w p = Inr (strip_config (?cs ! j))"
    using j(2) by (simp add: config_variable_cols_def variable_configs_Inr [OF assms])
  then show ?thesis
    using j(1,3,4) by (intro exI [of _ j]) auto
qed

lemma config_variable_cols_Inr_D:
  assumes "config_variable_cols elts w p = Inr c"
  shows "elts \<noteq> [] \<and> int (Min (set (map length elts))) + p \<noteq> 0"
proof (rule ccontr)
  assume "\<not> ?thesis"
  then obtain e where "variable_configs elts w p = Inl e"
    using variable_configs_Inl [of elts p w] by blast
  then show False using assms by (simp add: config_variable_cols_def)
qed

subsection \<open>The uniform strategy\<close>

lemma uniform_cols_sum:
  fixes d w n :: int
  assumes "0 < d" and "d \<le> w"
  shows "int (nat (min n (max 1 (w div d)))) * d \<le> w"
proof -
  have "d div d \<le> w div d" using assms by (intro zdiv_mono1)
  then have "1 \<le> w div d" using assms(1) by simp
  then have "int (nat (min n (max 1 (w div d)))) \<le> w div d" by simp
  then have "int (nat (min n (max 1 (w div d)))) * d \<le> (w div d) * d"
    using assms(1) by (simp add: mult_right_mono)
  also have "\<dots> \<le> w"
  proof -
    have "(w div d) * d + w mod d = w" by (rule div_mult_mod_eq)
    moreover have "0 \<le> w mod d" using assms(1) by (rule pos_mod_sign)
    ultimately show ?thesis by linarith
  qed
  finally show ?thesis .
qed

lemma strip_config_simps [simp]:
  "widths (strip_config c) = filter (\<lambda>w. w \<noteq> 0) (widths c)"
  "cols (strip_config c) = length (filter (\<lambda>w. w \<noteq> 0) (widths c))"
  "valid (strip_config c) = valid c"
  "line_length (strip_config c) = line_length c"
  by (simp_all add: strip_config_def)

lemma variable_cols_within_width:
  assumes "1 \<le> w" and "config_variable_cols elts w p = Inr c" and "valid c"
  shows "length (widths c) = cols c \<and> (\<forall>x\<in>set (widths c). 0 \<le> x) \<and> sum_list (widths c) < w"
proof -
  from config_variable_cols_Inr_D [OF assms(2)]
  have ne: "elts \<noteq> []" and d: "int (Min (set (map length elts))) + p \<noteq> 0" by simp_all
  from config_variable_cols_Inr [OF ne d, of w]
  obtain j where c: "c = strip_config (final_state elts w p j)"
    using assms(2) by auto
  let ?s = "final_state elts w p j"
  have inv: "conf_inv j ?s" by (rule final_state_inv)
  have "valid ?s" using assms(3) c by simp
  then have "line_length ?s < w" using final_state_valid_iff [OF assms(1)] by simp
  then have "sum_list (widths c) < w"
    using inv c by (simp add: conf_inv_def sum_list_filter_nonzero)
  moreover have "\<forall>x\<in>set (widths c). 0 \<le> x" using inv c by (simp add: conf_inv_def)
  ultimately show ?thesis using c by simp
qed

lemma uniform_cols_within_width:
  assumes "0 \<le> p" and "config_uniform_cols elts w p = Inr c"
    and "int (Max (set (map length elts))) + p \<le> w"
  shows "length (widths c) = cols c \<and> (\<forall>x\<in>set (widths c). 0 \<le> x) \<and> sum_list (widths c) \<le> w"
proof -
  let ?d = "int (Max (set (map length elts))) + p"
  have ne: "elts \<noteq> []" using assms(2) by (auto simp: config_uniform_cols_def)
  then have d0: "?d \<noteq> 0"
    using assms(2) by (auto simp: config_uniform_cols_def py_max_eq py_div_def Let_def split: if_splits)
  have dpos: "0 < ?d" using d0 assms(1) by linarith
  let ?k = "nat (min (int (length elts)) (max 1 (w div ?d)))"
  have c: "c = (ColumnConfig_init ?k)\<lparr>widths := replicate ?k ?d\<rparr>"
    using assms(2) ne d0 by (simp add: config_uniform_cols_def py_max_eq py_div_def Let_def)
  have "sum_list (widths c) = int ?k * ?d" using c by (simp add: sum_list_replicate)
  then have "sum_list (widths c) \<le> w"
    using uniform_cols_sum [OF dpos assms(3), of "int (length elts)"] by simp
  moreover have "\<forall>x\<in>set (widths c). 0 \<le> x" using c dpos by auto
  moreover have "length (widths c) = cols c" using c by (simp add: ColumnConfig_init_def)
  ultimately show ?thesis by simp
qed

subsection \<open>The widths of a candidate after the pass\<close>

lemma conf_after_snoc:
  "conf_after n w p i (xs @ [x]) c = update_conf n w p (fst x) (snd x) i (conf_after n w p i xs c)"
  by (simp add: conf_after_def)

lemma update_conf_valid_D: "valid (update_conf n w p elt len i c) \<Longrightarrow> valid c"
  by (cases "valid c") (simp_all add: update_conf_invalid)

lemma length_widths_update_conf [simp]:
  "length (widths (update_conf n w p elt len i c)) = length (widths c)"
  by (simp add: update_conf_eq)

lemma length_widths_conf_after [simp]:
  "length (widths (conf_after n w p i xs c)) = length (widths c)"
  by (induction xs arbitrary: c) (simp_all add: conf_after_Cons)

text \<open>Upper bound: a width is 0 or the padded length of a label of its column.\<close>

lemma widths_after_cases:
  assumes "col < length (widths c)" and "\<forall>k<length (widths c). widths c ! k = 0"
  shows "widths (conf_after n w p i xs c) ! col = 0
       \<or> (\<exists>x\<in>set xs. col_of n i (fst x) = col
             \<and> widths (conf_after n w p i xs c) ! col = padded_len p i col (snd x))"
proof (induction xs rule: rev_induct)
  case Nil
  then show ?case using assms by simp
next
  case (snoc x xs)
  let ?s = "conf_after n w p i xs c"
  let ?cx = "col_of n i (fst x)"
  show ?case
  proof (cases "valid ?s \<and> widths ?s ! ?cx < padded_len p i ?cx (snd x)")
    case False
    then have "conf_after n w p i (xs @ [x]) c = ?s"
      by (auto simp: conf_after_snoc update_conf_eq)
    then show ?thesis using snoc.IH by auto
  next
    case True
    then have w: "widths (conf_after n w p i (xs @ [x]) c)
                    = (widths ?s)[?cx := padded_len p i ?cx (snd x)]"
      by (simp add: conf_after_snoc update_conf_eq)
    show ?thesis
    proof (cases "col = ?cx")
      case True
      then show ?thesis using w assms(1) by simp
    next
      case False
      then have "widths (conf_after n w p i (xs @ [x]) c) ! col = widths ?s ! col"
        using w by simp
      then show ?thesis using snoc.IH by auto
    qed
  qed
qed

text \<open>Lower bound: a candidate that is valid at the end has seen every label.\<close>

lemma widths_after_ge:
  assumes "valid (conf_after n w p i xs c)" and "x \<in> set xs"
    and "col_of n i (fst x) < length (widths c)"
  shows "padded_len p i (col_of n i (fst x)) (snd x)
           \<le> widths (conf_after n w p i xs c) ! col_of n i (fst x)"
  using assms
proof (induction xs arbitrary: x rule: rev_induct)
  case Nil
  then show ?case by simp
next
  case (snoc y ys)
  let ?s = "conf_after n w p i ys c"
  let ?s' = "conf_after n w p i (ys @ [y]) c"
  let ?cy = "col_of n i (fst y)"
  let ?cx = "col_of n i (fst x)"
  have s': "?s' = update_conf n w p (fst y) (snd y) i ?s" by (rule conf_after_snoc)
  have v: "valid ?s" using snoc.prems(1) s' update_conf_valid_D by metis
  have mono: "widths ?s ! k \<le> widths ?s' ! k" if "k < length (widths c)" for k
    using that by (cases "k = ?cy") (auto simp: s' update_conf_eq)
  show ?case
  proof (cases "x \<in> set ys")
    case True
    then have "padded_len p i ?cx (snd x) \<le> widths ?s ! ?cx"
      using snoc.IH v snoc.prems(3) by blast
    then show ?thesis using mono [OF snoc.prems(3)] by linarith
  next
    case False
    then have "x = y" using snoc.prems(2) by simp
    then show ?thesis
      using snoc.prems(3) v by (auto simp: s' update_conf_eq)
  qed
qed

text \<open>Whatever the width: a candidate is valid iff nothing was added or the total is below it.\<close>

lemma update_conf_total:
  assumes "0 \<le> line_length c" and "valid c \<longleftrightarrow> line_length c < w \<or> line_length c = 0"
  shows "0 \<le> line_length (update_conf n w p elt len i c)
       \<and> (valid (update_conf n w p elt len i c)
            \<longleftrightarrow> line_length (update_conf n w p elt len i c) < w
                \<or> line_length (update_conf n w p elt len i c) = 0)"
  using assms by (auto simp: update_conf_eq)

lemma conf_after_total:
  assumes "0 \<le> line_length c" and "valid c \<longleftrightarrow> line_length c < w \<or> line_length c = 0"
  shows "0 \<le> line_length (conf_after n w p i xs c)
       \<and> (valid (conf_after n w p i xs c)
            \<longleftrightarrow> line_length (conf_after n w p i xs c) < w
                \<or> line_length (conf_after n w p i xs c) = 0)"
  using assms
proof (induction xs arbitrary: c)
  case Nil
  then show ?case by simp
next
  case (Cons x xs)
  show ?case
    unfolding conf_after_Cons
    using update_conf_total [OF Cons.prems, of n p "fst x" "snd x" i]
    by (intro Cons.IH) simp_all
qed

text \<open>A candidate that stays valid at a width does the same at a larger one.\<close>

lemma conf_after_wider:
  assumes "w1 \<le> w2" and "valid (conf_after n w1 p i xs c)"
  shows "conf_after n w2 p i xs c = (conf_after n w1 p i xs c)"
  using assms(2)
proof (induction xs rule: rev_induct)
  case Nil
  then show ?case by simp
next
  case (snoc x xs)
  let ?s = "conf_after n w1 p i xs c"
  have v': "valid (update_conf n w1 p (fst x) (snd x) i ?s)"
    using snoc.prems by (simp add: conf_after_snoc)
  then have v: "valid ?s" by (rule update_conf_valid_D)
  then have eq: "conf_after n w2 p i xs c = ?s" by (rule snoc.IH)
  have "update_conf n w2 p (fst x) (snd x) i ?s = update_conf n w1 p (fst x) (snd x) i ?s"
    using v' assms(1) by (auto simp: update_conf_eq split: if_splits)
  then show ?case by (simp add: conf_after_snoc eq)
qed

lemma filter_nonzero_length_ge:
  fixes ws :: "int list"
  assumes "k \<le> length ws" and "\<forall>c<k. ws ! c \<noteq> 0"
  shows "k \<le> length (filter (\<lambda>w. w \<noteq> 0) ws)"
proof -
  have "\<forall>x\<in>set (take k ws). x \<noteq> 0"
    using assms by (auto simp: in_set_conv_nth)
  then have "filter (\<lambda>w. w \<noteq> 0) (take k ws) = take k ws" by (simp add: filter_id_conv)
  moreover have "filter (\<lambda>w. w \<noteq> 0) ws
      = filter (\<lambda>w. w \<noteq> 0) (take k ws) @ filter (\<lambda>w. w \<noteq> 0) (drop k ws)"
    by (metis append_take_drop_id filter_append)
  ultimately show ?thesis using assms(1) by simp
qed

lemma filter_nonzero_length_le:
  fixes ws :: "int list"
  assumes "\<forall>c. k \<le> c \<and> c < length ws \<longrightarrow> ws ! c = 0"
  shows "length (filter (\<lambda>w. w \<noteq> 0) ws) \<le> k"
proof -
  have "\<forall>x\<in>set (drop k ws). x = 0"
    using assms by (auto simp: in_set_conv_nth)
  then have "filter (\<lambda>w. w \<noteq> 0) (drop k ws) = []" by (simp add: filter_empty_conv)
  moreover have "filter (\<lambda>w. w \<noteq> 0) ws
      = filter (\<lambda>w. w \<noteq> 0) (take k ws) @ filter (\<lambda>w. w \<noteq> 0) (drop k ws)"
    by (metis append_take_drop_id filter_append)
  moreover have "length (filter (\<lambda>w. w \<noteq> 0) (take k ws)) \<le> length (take k ws)"
    by (rule length_filter_le)
  ultimately show ?thesis by simp
qed

text \<open>The number of rows falls and the number of columns in use grows with the candidate.\<close>

lemma rows_eq: "0 < (n::nat) \<Longrightarrow> (n + i) div (i + 1) = (n - 1) div (i + 1) + 1"
proof -
  assume "0 < n"
  then have "n + i = (n - 1) + (i + 1)" by simp
  then show ?thesis by (metis div_add_self2 add_is_0 zero_neq_one)
qed

lemma rows_antimono:
  "0 < (n::nat) \<Longrightarrow> i \<le> j \<Longrightarrow> (n + j) div (j + 1) \<le> (n + i) div (i + 1)"
  by (simp only: rows_eq) (simp add: div_le_mono2)

lemma used_mono:
  "0 < (n::nat) \<Longrightarrow> i \<le> j \<Longrightarrow>
     (n - 1) div ((n + i) div (i + 1)) \<le> (n - 1) div ((n + j) div (j + 1))"
  using rows_antimono [of n i j] rows_pos [of n j] by (simp add: div_le_mono2)

lemma widths_init [simp]: "widths (ColumnConfig_init c) = replicate c 0"
  by (simp add: ColumnConfig_init_def)

lemma init_widths_zero:
  "\<forall>k<length (widths (ColumnConfig_init c)). widths (ColumnConfig_init c) ! k = 0"
  by (simp add: ColumnConfig_init_def)

lemma length_widths_final_state [simp]: "length (widths (final_state elts w p j)) = j + 1"
  by (simp add: final_state_def)

lemma final_state_wider:
  "w1 \<le> w2 \<Longrightarrow> valid (final_state elts w1 p j) \<Longrightarrow> final_state elts w2 p j = final_state elts w1 p j"
  unfolding final_state_def by (rule conf_after_wider)

lemma final_state_total:
  "0 \<le> line_length (final_state elts w p j)
   \<and> (valid (final_state elts w p j)
        \<longleftrightarrow> line_length (final_state elts w p j) < w \<or> line_length (final_state elts w p j) = 0)"
  unfolding final_state_def
  by (rule conf_after_total) (simp_all add: ColumnConfig_init_def)

lemma final_state_widths_ge:
  assumes "valid (final_state elts w p j)" and "e < length elts"
  shows "padded_len p j (col_of (length elts) j e) (length (elts ! e))
           \<le> widths (final_state elts w p j) ! col_of (length elts) j e"
proof -
  have "(e, length (elts ! e)) \<in> set (List.enumerate 0 (map length elts))"
    using assms(2) by (simp add: in_set_enumerate_eq)
  moreover have "col_of (length elts) j e < length (widths (ColumnConfig_init (j + 1)))"
    using col_of_less [OF assms(2), of j] by simp
  ultimately show ?thesis
    using widths_after_ge [of "length elts" w p j "List.enumerate 0 (map length elts)"
        "ColumnConfig_init (j + 1)" "(e, length (elts ! e))"] assms(1)
    by (simp add: final_state_def)
qed

lemma final_state_widths_cases:
  assumes "col < j + 1"
  shows "widths (final_state elts w p j) ! col = 0
       \<or> (\<exists>e<length elts. col_of (length elts) j e = col
             \<and> widths (final_state elts w p j) ! col = padded_len p j col (length (elts ! e)))"
proof -
  have "widths (final_state elts w p j) ! col = 0
       \<or> (\<exists>x\<in>set (List.enumerate 0 (map length elts)). col_of (length elts) j (fst x) = col
             \<and> widths (final_state elts w p j) ! col = padded_len p j col (snd x))"
    unfolding final_state_def using assms
    by (intro widths_after_cases init_widths_zero) simp
  then show ?thesis
    by (auto simp: in_set_enumerate_eq)
qed

lemma min_plus_padding_le:
  assumes "e < length elts"
  shows "int (Min (set (map length elts))) + p \<le> int (length (elts ! e)) + p"
proof -
  have "length (elts ! e) \<in> set (map length elts)" using assms by simp
  then have "Min (set (map length elts)) \<le> length (elts ! e)" by (intro Min_le) simp_all
  then show ?thesis by simp
qed

lemma col_of_zero [simp]: "col_of n j 0 = 0"
  by (simp add: col_of_def)

lemma col_of_single: "e < n \<Longrightarrow> col_of n 0 e = 0"
  by (simp add: col_of_def)

text \<open>The first width of the chosen candidate is positive once a label is not empty.\<close>

lemma first_width_pos:
  assumes "0 \<le> p" and "int (Min (set (map length elts))) + p \<noteq> 0"
    and "e < length elts" and "elts ! e \<noteq> []"
    and "valid (final_state elts w p j) \<or> j = 0"
  shows "0 < widths (final_state elts w p j) ! 0"
proof (cases "valid (final_state elts w p j)")
  case True
  show ?thesis
  proof (cases "j = 0")
    case True
    have "padded_len p 0 0 (length (elts ! e)) \<le> widths (final_state elts w p 0) ! 0"
      using final_state_widths_ge [of elts w p 0 e] \<open>valid (final_state elts w p j)\<close> True
        assms(3) col_of_single [OF assms(3)] by simp
    then have a: "int (length (elts ! e)) \<le> widths (final_state elts w p 0) ! 0"
      by (simp add: padded_len_def)
    have b: "0 < int (length (elts ! e))" using assms(4) by simp
    from a b show ?thesis unfolding True by linarith
  next
    case False
    have e0: "0 < length elts" using assms(3) by linarith
    have "padded_len p j 0 (length (elts ! 0)) \<le> widths (final_state elts w p j) ! 0"
      using final_state_widths_ge [of elts w p j 0] True e0 by simp
    moreover have "0 < int (Min (set (map length elts))) + p"
      using assms(1,2) by linarith
    then have "0 < int (length (elts ! 0)) + p"
      using min_plus_padding_le [OF e0, of p] by linarith
    ultimately show ?thesis using False by (simp add: padded_len_def)
  qed
next
  case False
  then have j: "j = 0" using assms(5) by simp
  have "0 < line_length (final_state elts w p j)"
    using final_state_total [of elts w p j] False by linarith
  moreover have "conf_inv j (final_state elts w p j)" by (rule final_state_inv)
  ultimately show ?thesis
    using j by (cases "widths (final_state elts w p 0)") (auto simp: conf_inv_def)
qed

subsection \<open>The number of columns that remain\<close>

lemma strip_cols_le_used:
  assumes "0 < length elts"
  shows "cols (strip_config (final_state elts w p j))
           \<le> (length elts - 1) div ((length elts + j) div (j + 1)) + 1"
proof -
  let ?n = "length elts"
  let ?r = "(?n + j) div (j + 1)"
  let ?ws = "widths (final_state elts w p j)"
  have "?ws ! c = 0" if c: "(?n - 1) div ?r + 1 \<le> c" "c < length ?ws" for c
  proof (rule ccontr)
    assume nz: "?ws ! c \<noteq> 0"
    have "c < j + 1" using c(2) by simp
    from final_state_widths_cases [OF this, of elts w p] nz
    obtain e where e: "e < ?n" "col_of ?n j e = c" by blast
    have "e \<le> ?n - 1" using e(1) by linarith
    then have "e div ?r \<le> (?n - 1) div ?r" by (rule div_le_mono)
    then show False using e(2) c(1) by (simp add: col_of_def)
  qed
  then have "length (filter (\<lambda>w. w \<noteq> 0) ?ws) \<le> (?n - 1) div ?r + 1"
    by (intro filter_nonzero_length_le) blast
  then show ?thesis by simp
qed

lemma strip_cols_ge_used:
  assumes "valid (final_state elts w p j)" and "0 \<le> p"
    and "int (Min (set (map length elts))) + p \<noteq> 0" and "0 < length elts"
  shows "min ((length elts - 1) div ((length elts + j) div (j + 1)) + 1) j
           \<le> cols (strip_config (final_state elts w p j))"
proof -
  let ?n = "length elts"
  let ?r = "(?n + j) div (j + 1)"
  let ?ws = "widths (final_state elts w p j)"
  have r: "0 < ?r" using assms(4) by (rule rows_pos)
  have dpos: "0 < int (Min (set (map length elts))) + p" using assms(2,3) by linarith
  have "?ws ! c \<noteq> 0" if c: "c < min ((?n - 1) div ?r + 1) j" for c
  proof -
    have "c \<le> (?n - 1) div ?r" using c by simp
    then have "c * ?r \<le> (?n - 1) div ?r * ?r" by (rule mult_le_mono1)
    also have "\<dots> \<le> ?n - 1" by (rule div_times_less_eq_dividend)
    finally have e: "c * ?r < ?n" using assms(4) by linarith
    have col: "col_of ?n j (c * ?r) = c" using r by (simp add: col_of_def)
    have "padded_len p j c (length (elts ! (c * ?r))) \<le> ?ws ! c"
      using final_state_widths_ge [OF assms(1) e] col by simp
    moreover have "0 < int (length (elts ! (c * ?r))) + p"
      using min_plus_padding_le [OF e, of p] dpos by linarith
    ultimately show ?thesis using c by (simp add: padded_len_def)
  qed
  then have "min ((?n - 1) div ?r + 1) j \<le> length (filter (\<lambda>w. w \<noteq> 0) ?ws)"
    by (intro filter_nonzero_length_ge) simp_all
  then show ?thesis by simp
qed

lemma strip_cols_le_length: "cols (strip_config (final_state elts w p j)) \<le> j + 1"
  using length_filter_le [of "\<lambda>w. w \<noteq> 0" "widths (final_state elts w p j)"] by simp

lemma strip_cols_pos:
  assumes "0 \<le> p" and "int (Min (set (map length elts))) + p \<noteq> 0"
    and "e < length elts" and "elts ! e \<noteq> []"
    and "valid (final_state elts w p j) \<or> j = 0"
  shows "1 \<le> cols (strip_config (final_state elts w p j))"
proof -
  have "0 < widths (final_state elts w p j) ! 0" using assms by (rule first_width_pos)
  then have "\<forall>c<1. widths (final_state elts w p j) ! c \<noteq> 0" by simp
  then have "1 \<le> length (filter (\<lambda>w. w \<noteq> 0) (widths (final_state elts w p j)))"
    by (intro filter_nonzero_length_ge) simp_all
  then show ?thesis by simp
qed

lemma max_cols_of_mono:
  assumes "w1 \<le> w2" and "0 < int (Min (set (map length elts))) + p"
  shows "max_cols_of elts w1 p \<le> max_cols_of elts w2 p"
proof -
  have "w1 div (int (Min (set (map length elts))) + p) \<le> w2 div (int (Min (set (map length elts))) + p)"
    using assms by (rule zdiv_mono1)
  then show ?thesis unfolding max_cols_of_def by (intro nat_mono) linarith
qed

lemma single_width_eq_total:
  "widths (final_state elts w p 0) = [line_length (final_state elts w p 0)]"
  using final_state_inv [of 0 elts w p]
  by (cases "widths (final_state elts w p 0)") (auto simp: conf_inv_def)

lemma single_width_is_length:
  assumes "line_length (final_state elts w p 0) \<noteq> 0"
  shows "\<exists>e<length elts. line_length (final_state elts w p 0) = int (length (elts ! e))"
  using final_state_widths_cases [of 0 0 elts w p] assms
  by (auto simp: single_width_eq_total padded_len_def)

lemma invalid_single_nonempty:
  assumes "\<not> valid (final_state elts w p 0)"
  shows "\<exists>e<length elts. elts ! e \<noteq> []"
proof -
  have "line_length (final_state elts w p 0) \<noteq> 0"
    using final_state_total [of elts w p 0] assms by blast
  from single_width_is_length [OF this] this show ?thesis by auto
qed

lemma variable_cols_monotone_aux:
  assumes "w1 \<le> w2" and "0 \<le> p" and "elts \<noteq> []"
    and d: "int (Min (set (map length elts))) + p \<noteq> 0"
    and j1: "j1 < max_cols_of elts w1 p" "valid (final_state elts w1 p j1) \<or> j1 = 0"
    and j2: "j2 < max_cols_of elts w2 p" "valid (final_state elts w2 p j2) \<or> j2 = 0"
      "\<forall>j'. j2 < j' \<and> j' < max_cols_of elts w2 p \<longrightarrow> \<not> valid (final_state elts w2 p j')"
  shows "cols (strip_config (final_state elts w1 p j1)) \<le> cols (strip_config (final_state elts w2 p j2))"
proof (cases "valid (final_state elts w1 p j1)")
  case True
  have n: "0 < length elts" using assms(3) by simp
  have dpos: "0 < int (Min (set (map length elts))) + p" using assms(2) d by linarith
  have same: "final_state elts w2 p j1 = final_state elts w1 p j1"
    using assms(1) True by (rule final_state_wider)
  have "j1 < max_cols_of elts w2 p"
    using j1(1) max_cols_of_mono [OF assms(1) dpos] by linarith
  then have le: "j1 \<le> j2" using j2(3) same True by (metis not_le_imp_less)
  show ?thesis
  proof (cases "j1 = j2")
    case True
    then show ?thesis using same by simp
  next
    case False
    then have lt: "j1 < j2" using le by simp
    then have v2: "valid (final_state elts w2 p j2)" using j2(2) by simp
    let ?U = "\<lambda>j. (length elts - 1) div ((length elts + j) div (j + 1)) + 1"
    have "cols (strip_config (final_state elts w1 p j1)) \<le> ?U j1"
      using n by (rule strip_cols_le_used)
    moreover have "?U j1 \<le> ?U j2" using used_mono [OF n le] by simp
    moreover have "cols (strip_config (final_state elts w1 p j1)) \<le> j1 + 1"
      by (rule strip_cols_le_length)
    moreover have "min (?U j2) j2 \<le> cols (strip_config (final_state elts w2 p j2))"
      using v2 assms(2) d n by (rule strip_cols_ge_used)
    ultimately show ?thesis using lt by linarith
  qed
next
  case False
  then have z: "j1 = 0" using j1(2) by simp
  from invalid_single_nonempty [of elts w1 p] False z
  obtain e where e: "e < length elts" "elts ! e \<noteq> []" by blast
  have "1 \<le> cols (strip_config (final_state elts w2 p j2))"
    using assms(2) d e j2(2) by (rule strip_cols_pos)
  moreover have "cols (strip_config (final_state elts w1 p j1)) \<le> 1"
    using strip_cols_le_length [of elts w1 p j1] z by simp
  ultimately show ?thesis by linarith
qed

subsection \<open>A single column\<close>

lemma max_length_attained:
  assumes "elts \<noteq> []"
  shows "\<exists>e<length elts. length (elts ! e) = Max (set (map length elts))"
proof -
  have "Max (set (map length elts)) \<in> set (map length elts)"
    using assms by (intro Max_in) simp_all
  then show ?thesis by (auto simp: in_set_conv_nth)
qed

lemma length_le_max: "e < length elts \<Longrightarrow> length (elts ! e) \<le> Max (set (map length elts))"
  by (intro Max_ge) simp_all

text \<open>The single-column candidate that fits ends with the length of the longest label.\<close>

lemma single_column_fits:
  assumes "elts \<noteq> []" and "int (Max (set (map length elts))) < w"
  shows "valid (final_state elts w p 0)
       \<and> widths (final_state elts w p 0) = [int (Max (set (map length elts)))]"
proof -
  let ?s = "final_state elts w p 0"
  let ?M = "Max (set (map length elts))"
  have le: "line_length ?s \<le> int ?M"
  proof (cases "line_length ?s = 0")
    case True
    then show ?thesis by simp
  next
    case False
    from single_width_is_length [OF this]
    obtain e where "e < length elts" "line_length ?s = int (length (elts ! e))" by blast
    then show ?thesis using length_le_max [of e elts] by simp
  qed
  then have v: "valid ?s" using final_state_total [of elts w p 0] assms(2) by linarith
  from max_length_attained [OF assms(1)]
  obtain e where e: "e < length elts" "length (elts ! e) = ?M" by blast
  have "padded_len p 0 (col_of (length elts) 0 e) (length (elts ! e))
          \<le> widths ?s ! col_of (length elts) 0 e"
    using v e(1) by (rule final_state_widths_ge)
  then have "int ?M \<le> line_length ?s"
    using e by (simp add: col_of_single padded_len_def single_width_eq_total)
  then show ?thesis using v le by (simp add: single_width_eq_total)
qed

lemma later_candidate_in_tl:
  assumes "0 < j" and "j < m"
  shows "f j \<in> set (tl (map f [0..<m]))"
proof -
  have "j - 1 < length (tl (map f [0..<m]))" using assms by simp
  moreover have "tl (map f [0..<m]) ! (j - 1) = f j"
    using assms by (simp add: nth_tl)
  ultimately show ?thesis by (metis nth_mem)
qed

lemma variable_single_column:
  assumes "elts \<noteq> []" and "int (Min (set (map length elts))) + p \<noteq> 0"
    and "e < length elts" and "elts ! e \<noteq> []"
    and "variable_configs elts w p = Inr cs" and "\<forall>c\<in>set (tl cs). \<not> valid c"
    and "int (Max (set (map length elts))) < w"
  shows "config_variable_cols elts w p
           = Inr ((final_state elts w p 0)\<lparr>widths := [int (Max (set (map length elts)))], cols := 1\<rparr>)"
proof -
  let ?m = "max_cols_of elts w p"
  let ?M = "Max (set (map length elts))"
  have cs: "cs = map (final_state elts w p) [0..<?m]"
    using assms(5) variable_configs_Inr [OF assms(1,2), of w] by simp
  from config_variable_cols_Inr [OF assms(1,2), of w]
  obtain j where j: "j < ?m"
      "config_variable_cols elts w p = Inr (strip_config (final_state elts w p j))"
      "valid (final_state elts w p j) \<or> j = 0"
    by blast
  have j0: "j = 0"
  proof (rule ccontr)
    assume "j \<noteq> 0"
    then have nz: "0 < j" by simp
    have "final_state elts w p j \<in> set (tl cs)"
      unfolding cs using nz j(1) by (rule later_candidate_in_tl)
    then have "\<not> valid (final_state elts w p j)" using assms(6) by blast
    then show False using j(3) nz by simp
  qed
  have "0 < length (elts ! e)" using assms(4) by simp
  then have "0 < ?M" using length_le_max [OF assms(3)] by linarith
  then have M: "int ?M \<noteq> 0" by simp
  have "widths (final_state elts w p 0) = [int ?M]"
    using single_column_fits [OF assms(1,7), of p] by (rule conjunct2)
  then have f: "filter (\<lambda>w. w \<noteq> 0) (widths (final_state elts w p 0)) = [int ?M]"
    using M by simp
  show ?thesis unfolding j(2) j0 strip_config_def f by simp
qed

lemma uniform_cols_Inr:
  assumes "elts \<noteq> []" and "int (Max (set (map length elts))) + p \<noteq> 0"
  shows "\<exists>k\<ge>1. config_uniform_cols elts w p
           = Inr ((ColumnConfig_init k)\<lparr>widths := replicate k (int (Max (set (map length elts))) + p)\<rparr>)"
proof -
  let ?k = "nat (min (int (length elts)) (max 1 (w div (int (Max (set (map length elts))) + p))))"
  have "0 < length elts" using assms(1) by simp
  then have "1 \<le> ?k" by linarith
  moreover have "config_uniform_cols elts w p
      = Inr ((ColumnConfig_init ?k)\<lparr>widths := replicate ?k (int (Max (set (map length elts))) + p)\<rparr>)"
    using assms by (simp add: config_uniform_cols_def py_max_eq py_div_def Let_def)
  ultimately show ?thesis by blast
qed

section \<open>The claims\<close>

subsection \<open>C1: the columns of a planned layout\<close>

text \<open>
  C1, as the code has it. For a padding of at least 0 and labels of which one at
  least is not empty, with \<open>min(lengths) + padding\<close> not 0, both strategies return a
  layout with at least one column and as many widths as columns. When no candidate
  of two or more columns is valid after the pass and the longest label is shorter
  than the width, the variable layout is one column as wide as the longest label;
  a uniform layout of one column has the width of the longest label plus the
  padding.
\<close>

theorem planner_layout_columns:
  assumes "0 \<le> p" and "\<exists>e\<in>set elts. e \<noteq> []"
    and "int (Min (set (map length elts))) + p \<noteq> 0"
  shows "(\<exists>c. config_variable_cols elts w p = Inr c \<and> 1 \<le> cols c \<and> length (widths c) = cols c
            \<and> (\<forall>cs. variable_configs elts w p = Inr cs \<and> (\<forall>x\<in>set (tl cs). \<not> valid x)
                      \<and> int (Max (set (map length elts))) < w
                  \<longrightarrow> cols c = 1 \<and> widths c = [int (Max (set (map length elts)))]))
       \<and> (\<exists>c. config_uniform_cols elts w p = Inr c \<and> 1 \<le> cols c \<and> length (widths c) = cols c
            \<and> (cols c = 1 \<longrightarrow> widths c = [int (Max (set (map length elts))) + p]))"
proof -
  obtain e where e: "e < length elts" "elts ! e \<noteq> []"
    using assms(2) by (auto simp: in_set_conv_nth)
  then have ne: "elts \<noteq> []" by auto
  have variable: "\<exists>c. config_variable_cols elts w p = Inr c \<and> 1 \<le> cols c
        \<and> length (widths c) = cols c
        \<and> (\<forall>cs. variable_configs elts w p = Inr cs \<and> (\<forall>x\<in>set (tl cs). \<not> valid x)
                  \<and> int (Max (set (map length elts))) < w
              \<longrightarrow> cols c = 1 \<and> widths c = [int (Max (set (map length elts)))])"
  proof -
    from config_variable_cols_Inr [OF ne assms(3), of w]
    obtain j where j: "config_variable_cols elts w p = Inr (strip_config (final_state elts w p j))"
        "valid (final_state elts w p j) \<or> j = 0"
      by blast
    let ?c = "strip_config (final_state elts w p j)"
    have "1 \<le> cols ?c" using assms(1,3) e j(2) by (rule strip_cols_pos)
    moreover have "length (widths ?c) = cols ?c" by simp
    moreover have "cols ?c = 1 \<and> widths ?c = [int (Max (set (map length elts)))]"
      if "variable_configs elts w p = Inr cs" "\<forall>x\<in>set (tl cs). \<not> valid x"
        "int (Max (set (map length elts))) < w" for cs
      using variable_single_column [OF ne assms(3) e that] j(1) by simp
    ultimately show ?thesis using j(1) by blast
  qed
  have "0 < length (elts ! e)" using e(2) by simp
  then have "0 < Max (set (map length elts))"
    using length_le_max [OF e(1)] by linarith
  then have "int (Max (set (map length elts))) + p \<noteq> 0" using assms(1) by linarith
  from uniform_cols_Inr [OF ne this, of w]
  obtain k where k: "1 \<le> k" "config_uniform_cols elts w p
      = Inr ((ColumnConfig_init k)\<lparr>widths := replicate k (int (Max (set (map length elts))) + p)\<rparr>)"
    by blast
  let ?u = "(ColumnConfig_init k)\<lparr>widths := replicate k (int (Max (set (map length elts))) + p)\<rparr>"
  have "cols ?u = k" by (simp add: ColumnConfig_init_def)
  then have "1 \<le> cols ?u \<and> length (widths ?u) = cols ?u
      \<and> (cols ?u = 1 \<longrightarrow> widths ?u = [int (Max (set (map length elts))) + p])"
    using k(1) by simp
  then have uniform: "\<exists>c. config_uniform_cols elts w p = Inr c \<and> 1 \<le> cols c
        \<and> length (widths c) = cols c
        \<and> (cols c = 1 \<longrightarrow> widths c = [int (Max (set (map length elts))) + p])"
    using k(2) by blast
  from variable uniform show ?thesis by (rule conjI)
qed

text \<open>Both strategies on two labels that fit in one column only.\<close>

theorem planner_layout_columns_witness:
  "config_variable_cols [''aa'', ''bbbbb''] 7 2
     = Inr \<lparr>cols = 1, line_length = 5, valid = True, widths = [5]\<rparr>
   \<and> config_uniform_cols [''aa'', ''bbbbb''] 7 2
     = Inr \<lparr>cols = 1, line_length = 0, valid = True, widths = [7]\<rparr>"
proof -
  have a: "\<exists>e\<in>set [''aa'', ''bbbbb'']. e \<noteq> []"
    and b: "int (Min (set (map length [''aa'', ''bbbbb'']))) + 2 \<noteq> 0"
    by simp_all
  have v: "config_variable_cols [''aa'', ''bbbbb''] 7 2
     = Inr \<lparr>cols = 1, line_length = 5, valid = True, widths = [5]\<rparr>"
    by code_simp
  have u: "config_uniform_cols [''aa'', ''bbbbb''] 7 2
     = Inr \<lparr>cols = 1, line_length = 0, valid = True, widths = [7]\<rparr>"
    by code_simp
  show ?thesis
    using planner_layout_columns [OF _ a b, of 7] v u by simp
qed

text \<open>C1 as stated: the single uniform column is as wide as the longest label plus
  the padding; the variable fallback keeps the width at which its only candidate
  became invalid, here that of the first label; and a list of empty labels gives a
  variable layout of no column.\<close>

theorem planner_layout_counterexample:
  "config_uniform_cols [''abc''] 1 2 = Inr \<lparr>cols = 1, line_length = 0, valid = True, widths = [5]\<rparr>
   \<and> config_variable_cols [''aa'', ''bbbbb''] 2 2
       = Inr \<lparr>cols = 1, line_length = 2, valid = False, widths = [2]\<rparr>
   \<and> config_variable_cols [[]] 80 2 = Inr \<lparr>cols = 0, line_length = 0, valid = True, widths = []\<rparr>"
  by code_simp

subsection \<open>C2: more width never gives fewer columns\<close>

text \<open>
  C2. With the labels and a padding of at least 0 fixed, on every input for which
  the bound on the columns is defined (labels not empty,
  \<open>min(lengths) + padding\<close> not 0) the variable strategy returns a layout at
  every width, and for widths \<open>w1 \<le> w2\<close> the number of columns returned at \<open>w1\<close>
  is at most the number returned at \<open>w2\<close>.
\<close>

theorem variable_cols_monotone:
  assumes "w1 \<le> w2" and "0 \<le> p" and "elts \<noteq> []"
    and "int (Min (set (map length elts))) + p \<noteq> 0"
  shows "\<exists>c1 c2. config_variable_cols elts w1 p = Inr c1
           \<and> config_variable_cols elts w2 p = Inr c2 \<and> cols c1 \<le> cols c2"
proof -
  from config_variable_cols_Inr [OF assms(3,4), of w1]
  obtain j1 where j1: "j1 < max_cols_of elts w1 p"
      "config_variable_cols elts w1 p = Inr (strip_config (final_state elts w1 p j1))"
      "valid (final_state elts w1 p j1) \<or> j1 = 0"
    by blast
  from config_variable_cols_Inr [OF assms(3,4), of w2]
  obtain j2 where j2: "j2 < max_cols_of elts w2 p"
      "config_variable_cols elts w2 p = Inr (strip_config (final_state elts w2 p j2))"
      "\<forall>j'. j2 < j' \<and> j' < max_cols_of elts w2 p \<longrightarrow> \<not> valid (final_state elts w2 p j')"
      "valid (final_state elts w2 p j2) \<or> j2 = 0"
    by blast
  have "cols (strip_config (final_state elts w1 p j1))
          \<le> cols (strip_config (final_state elts w2 p j2))"
    using assms j1(1,3) j2(1,4,3) by (rule variable_cols_monotone_aux)
  then show ?thesis using j1(2) j2(2) by simp
qed

text \<open>Two labels at widths 5 and 9: one column, then two.\<close>

theorem variable_cols_monotone_witness:
  "config_variable_cols [''a'', ''bbbbb''] 5 2 = Inr \<lparr>cols = 1, line_length = 5, valid = False, widths = [5]\<rparr>
   \<and> config_variable_cols [''a'', ''bbbbb''] 9 2 = Inr \<lparr>cols = 2, line_length = 8, valid = True, widths = [3, 5]\<rparr>"
proof -
  have "int (Min (set (map length [''a'', ''bbbbb'']))) + 2 \<noteq> 0" by simp
  then have "\<exists>c1 c2. config_variable_cols [''a'', ''bbbbb''] 5 2 = Inr c1
           \<and> config_variable_cols [''a'', ''bbbbb''] 9 2 = Inr c2 \<and> cols c1 \<le> cols c2"
    using variable_cols_monotone [of 5 9 2 "[''a'', ''bbbbb'']"] by simp
  moreover have "config_variable_cols [''a'', ''bbbbb''] 5 2
      = Inr \<lparr>cols = 1, line_length = 5, valid = False, widths = [5]\<rparr>" by code_simp
  moreover have "config_variable_cols [''a'', ''bbbbb''] 9 2
      = Inr \<lparr>cols = 2, line_length = 8, valid = True, widths = [3, 5]\<rparr>" by code_simp
  ultimately show ?thesis by simp
qed

subsection \<open>C3: the widths of a layout and the available width\<close>

text \<open>
  C3, as the code has it. The widths of a layout already contain the padding the
  strategy adds (to every column for the uniform strategy; to every column but
  the last of the chosen candidate for the variable one, a column that is dropped
  when no label falls in it). For a width of at least 1 and a padding of at least 0, a layout
  returned by a strategy outside the forced single column (the variable result is
  a valid candidate; the uniform width \<open>max_len + padding\<close> fits once) has as many
  widths as columns, no negative width, and widths that sum to less than the
  available width (variable) or to at most the available width (uniform).
\<close>

theorem planner_layout_within_width:
  assumes "1 \<le> w" and "0 \<le> p"
  shows "(config_variable_cols elts w p = Inr c \<and> valid c
            \<longrightarrow> length (widths c) = cols c \<and> (\<forall>x\<in>set (widths c). 0 \<le> x)
                \<and> sum_list (widths c) < w)
       \<and> (config_uniform_cols elts w p = Inr c' \<and> int (Max (set (map length elts))) + p \<le> w
            \<longrightarrow> length (widths c') = cols c' \<and> (\<forall>x\<in>set (widths c'). 0 \<le> x)
                \<and> sum_list (widths c') \<le> w)"
  using variable_cols_within_width [OF assms(1), of elts p c]
    uniform_cols_within_width [OF assms(2), of elts w c'] by blast

text \<open>The two strategies on inputs that satisfy the hypotheses of C3.\<close>

theorem planner_layout_within_width_witness:
  "config_variable_cols [''a'', ''bbbbb''] 9 2
      = Inr \<lparr>cols = 2, line_length = 8, valid = True, widths = [3, 5]\<rparr>
   \<and> sum_list [3, 5] < (9::int)
   \<and> config_uniform_cols [''a'', ''b''] 6 2
      = Inr \<lparr>cols = 2, line_length = 0, valid = True, widths = [3, 3]\<rparr>
   \<and> sum_list [3, 3] \<le> (6::int)"
proof -
  have v: "config_variable_cols [''a'', ''bbbbb''] 9 2
      = Inr \<lparr>cols = 2, line_length = 8, valid = True, widths = [3, 5]\<rparr>"
    by code_simp
  have u: "config_uniform_cols [''a'', ''b''] 6 2
      = Inr \<lparr>cols = 2, line_length = 0, valid = True, widths = [3, 3]\<rparr>"
    by code_simp
  have m: "int (Max (set (map length [''a'', ''b'']))) + 2 \<le> 6" by simp
  show ?thesis
    using planner_layout_within_width [of 9 2 "[''a'', ''bbbbb'']"
        "\<lparr>cols = 2, line_length = 8, valid = True, widths = [3, 5]\<rparr>"]
      planner_layout_within_width [of 6 2 "[''a'', ''b'']" _
        "\<lparr>cols = 2, line_length = 0, valid = True, widths = [3, 3]\<rparr>"]
      v u m by simp
qed

text \<open>C3 as stated: the variable strategy returns two columns of widths 3 and 5 at
  width 9 and padding 2; the widths and one more padding make 10.\<close>

theorem width_budget_counterexample:
  "config_variable_cols [''a'', ''bbbbb''] 9 2
     = Inr \<lparr>cols = 2, line_length = 8, valid = True, widths = [3, 5]\<rparr>
   \<and> \<not> (sum_list [3, 5] + (int 2 - 1) * 2 \<le> (9::int))"
  by code_simp

subsection \<open>C4: the bound on the number of columns\<close>

text \<open>
  C4. The bound on the number of columns divides by \<open>min(lengths) + padding\<close>
  with no guard: with an empty label and padding 0 the variable strategy raises
  \<open>ZeroDivisionError\<close> and returns no layout.
\<close>

theorem variable_cols_zero_division:
  "config_variable_cols ['''', ''a''] 80 0 = Inl ZeroDivisionError"
  by code_simp

subsection \<open>C5: when a candidate becomes invalid\<close>

text \<open>
  C5, as the code has it. For a width of at least 1, after any number \<open>k\<close> of
  labels candidate \<open>i\<close> is valid exactly when its accumulated line length is
  strictly below \<open>console_width\<close> (a total equal to the width invalidates it),
  and a candidate that is invalid after \<open>k\<close> labels has the same state after any
  later label: it is never updated nor marked valid again.
\<close>

theorem candidate_invalid_permanent:
  assumes "1 \<le> w" and "i < m"
  shows "(valid (candidate_state lengths w p m i k)
            \<longleftrightarrow> line_length (candidate_state lengths w p m i k) < w)
       \<and> (\<not> valid (candidate_state lengths w p m i k) \<and> k \<le> k'
            \<longrightarrow> candidate_state lengths w p m i k' = candidate_state lengths w p m i k)"
proof -
  let ?xs = "List.enumerate 0 lengths"
  let ?c0 = "ColumnConfig_init (i + 1)"
  have init: "valid ?c0 = (line_length ?c0 < w)"
    using assms(1) by (simp add: ColumnConfig_init_def)
  have a: "valid (candidate_state lengths w p m i k)
            \<longleftrightarrow> line_length (candidate_state lengths w p m i k) < w"
    using conf_after_valid_iff [OF init] assms(2) by (simp add: candidate_state_eq)
  have b: "candidate_state lengths w p m i k' = candidate_state lengths w p m i k"
    if inv: "\<not> valid (candidate_state lengths w p m i k)" and le: "k \<le> k'"
  proof -
    have "take k' ?xs = take k ?xs @ drop k (take k' ?xs)"
      using le by (metis append_take_drop_id min.absorb1 take_take)
    then have "conf_after (length lengths) w p i (take k' ?xs) ?c0
        = conf_after (length lengths) w p i (drop k (take k' ?xs))
            (conf_after (length lengths) w p i (take k ?xs) ?c0)"
      by (metis conf_after_append)
    also have "\<dots> = conf_after (length lengths) w p i (take k ?xs) ?c0"
      using inv assms(2) by (simp add: candidate_state_eq conf_after_invalid)
    finally show ?thesis using assms(2) by (simp add: candidate_state_eq)
  qed
  from a b show ?thesis by blast
qed

text \<open>Candidate 0 on the lengths 2 and 5 at width 2: invalid after the first label,
  unchanged by the second.\<close>

theorem candidate_invalid_permanent_witness:
  "\<not> valid (candidate_state [2, 5] 2 2 1 0 1)
   \<and> line_length (candidate_state [2, 5] 2 2 1 0 1) = 2
   \<and> candidate_state [2, 5] 2 2 1 0 2 = candidate_state [2, 5] 2 2 1 0 1"
proof -
  have l: "line_length (candidate_state [2, 5] 2 2 1 0 1) = 2" by code_simp
  show ?thesis
    using candidate_invalid_permanent [of 2 0 1 "[2, 5]" 2 1 2] l by simp
qed

text \<open>C5 as stated: one label of length 2 at width 2 and padding 0 gives the single
  candidate a total equal to the width, and the candidate is invalid.\<close>

theorem candidate_equal_total_counterexample:
  "variable_configs [''ab''] 2 0 = Inr [\<lparr>cols = 1, line_length = 2, valid = False, widths = [2]\<rparr>]"
  by code_simp

subsection \<open>C6: output before a failure\<close>

text \<open>
  C6. Four labels in three uniform columns: the renderer computes two rows, writes
  the indent and two cells of the first row, and then reads \<open>elts[4]\<close>, which
  raises \<open>IndexError\<close> after output has been produced. The variable strategy
  does the same on four labels of which the last two are empty.
\<close>

theorem colify_partial_output:
  "colify (PyFile True) (24, 80) [''a'', ''b'', ''c'', ''d'']
     [(''method'', PyStr ''uniform''), (''width'', PyInt 9)]
   = (Inl IndexError, ['''', ''a  '', ''c  ''])
   \<and> colify (PyFile True) (24, 80) [''a'', ''b'', '''', ''''] []
   = (Inl IndexError, ['''', ''a  '', ''   ''])"
  by code_simp

subsection \<open>C7: an unknown method\<close>

text \<open>
  C7. On a terminal, with two labels and the method \<open>"bogus"\<close>, the call reaches
  line 166, where building the message of the \<open>ValueError\<close> reads the unbound
  name \<open>allowed_methods\<close>: what the caller receives is \<open>NameError\<close>, not the
  failure for an invalid argument. Nothing is written.
\<close>

theorem colify_unknown_method_name_error:
  "colify (PyFile True) (24, 80) [''a'', ''b''] [(''method'', PyStr ''bogus'')]
     = (Inl (NameError ''allowed_methods''), [])"
  by code_simp

subsection \<open>C8: an unknown option key\<close>

text \<open>
  C8. An option key that \<open>colify\<close> does not pop makes the call raise
  \<open>TypeError\<close> with the message
  \<open>'<key>' is an invalid keyword argument for this function.\<close>, where the key
  between the quotes (character 0x27) is the first key left in the dictionary, a
  key of the call that is none of the six recognised names; nothing is written and
  no layout is computed. For the options \<open>{"foo": 1}\<close> the key named is \<open>foo\<close>.
\<close>

theorem colify_unknown_option:
  assumes "unknown_options options \<noteq> []"
  shows "colify stdout ts elts options
           = (Inl (TypeError ([CHR 0x27] @ fst (hd (unknown_options options)) @ [CHR 0x27]
                               @ '' is an invalid keyword argument for this function.'')), [])
         \<and> fst (hd (unknown_options options)) \<in> fst ` set options
         \<and> fst (hd (unknown_options options)) \<notin> set option_names"
proof -
  obtain kv rest where u: "unknown_options options = kv # rest"
    using assms by (cases "unknown_options options") auto
  have "kv \<in> set (unknown_options options)" by (simp add: u)
  then have "kv \<in> set options" "fst kv \<notin> set option_names"
    by (simp_all add: unknown_options_def)
  then show ?thesis by (simp add: colify_unfold u invalid_keyword_def)
qed

theorem colify_unknown_option_witness:
  "colify (PyFile True) (24, 80) [''a'', ''b''] [(''foo'', PyInt 1)]
     = (Inl (TypeError ([CHR 0x27] @ ''foo'' @ [CHR 0x27]
                         @ '' is an invalid keyword argument for this function.'')), [])"
proof -
  have u: "unknown_options [(''foo'', PyInt 1)] = [(''foo'', PyInt 1)]"
    by (simp add: unknown_options_def option_names_def)
  show ?thesis
    using colify_unknown_option [of "[(''foo'', PyInt 1)]" "PyFile True" "(24, 80)" "[''a'', ''b'']"]
    by (simp add: u)
qed

subsection \<open>C9: the one-label-per-line path\<close>

text \<open>
  C9. With recognised option keys only, a non-empty list of labels, \<open>tty\<close> unset
  and an output whose \<open>isatty()\<close> is false, \<open>colify\<close> writes every label
  unchanged and followed by the line feed (character 0x0A), one write for each
  label, in order, and returns \<open>(1, (max_len,))\<close>.
\<close>

theorem colify_not_interactive:
  assumes "unknown_options options = []" and "elts \<noteq> []"
    and "option_value ''tty'' PyNone options = PyNone"
    and "option_value ''output'' stdout options = PyFile False"
  shows "colify stdout ts elts options
           = (Inr (1, [int (Max (length ` set elts))]), map (\<lambda>elt. elt @ [CHR 0x0A]) elts)"
  using assms
  by (simp add: colify_unfold colify_body_def colify_lines_def py_max_eq newline_def)

theorem colify_not_interactive_witness:
  "colify (PyFile False) (24, 80) [''a'', ''bcd''] [(''padding'', PyInt 1)]
     = (Inr (1, [3]), [''a'' @ [CHR 0x0A], ''bcd'' @ [CHR 0x0A]])"
proof -
  have "unknown_options [(''padding'', PyInt 1)] = []"
    by (simp add: unknown_options_def option_names_def)
  moreover have "option_value ''tty'' PyNone [(''padding'', PyInt 1)] = PyNone"
    and "option_value ''output'' (PyFile False) [(''padding'', PyInt 1)] = PyFile False"
    by (simp_all add: option_value_def)
  ultimately show ?thesis
    using colify_not_interactive [of "[(''padding'', PyInt 1)]" "[''a'', ''bcd'']" "PyFile False" "(24, 80)"]
    by simp
qed

subsection \<open>C10: the width handed to the strategies\<close>

text \<open>
  C10. On a call that does not take the one-label-per-line path (recognised keys,
  labels not empty, \<open>tty\<close> true or the output a terminal) with an integer
  \<open>indent\<close>, the strategy is called with \<open>max(1, w - indent)\<close>, where \<open>w\<close> is
  the \<open>width\<close> option when it is a non-zero integer and the terminal's number of
  columns when the option is unset or is 0.
\<close>

theorem colify_planner_width:
  assumes "unknown_options options = []" and "elts \<noteq> []"
    and "truthy (option_value ''tty'' PyNone options)
         \<or> (option_value ''tty'' PyNone options \<noteq> PyBool False
             \<and> option_value ''output'' stdout options = PyFile True)"
    and "as_int (option_value ''indent'' (PyInt 0) options) = Inr ind"
    and "option_value ''width'' PyNone options = PyNone \<and> w = snd ts
         \<or> option_value ''width'' PyNone options = PyInt 0 \<and> w = snd ts
         \<or> option_value ''width'' PyNone options = PyInt w \<and> w \<noteq> 0"
  shows "colify stdout ts elts options =
           (case choose_method (option_value ''method'' (PyStr ''variable'') options) elts
                   (max 1 (w - ind)) (option_value ''padding'' (PyInt 2) options) of
              Inl e \<Rightarrow> (Inl e, [])
            | Inr config \<Rightarrow> render (option_value ''output'' stdout options) elts ind config)"
proof -
  have w: "console_cols_of ts (option_value ''width'' PyNone options) = Inr w"
    using assms(5) by (auto simp: console_cols_of_def)
  have "colify_body ts (option_value ''output'' stdout options)
                (option_value ''indent'' (PyInt 0) options)
                (option_value ''padding'' (PyInt 2) options)
                (option_value ''tty'' PyNone options)
                (option_value ''method'' (PyStr ''variable'') options)
                (option_value ''width'' PyNone options) elts
        = colify_columns ts (option_value ''output'' stdout options)
                (option_value ''indent'' (PyInt 0) options)
                (option_value ''padding'' (PyInt 2) options)
                (option_value ''method'' (PyStr ''variable'') options)
                (option_value ''width'' PyNone options) elts"
    using assms(2,3) by (auto simp: colify_body_def)
  then show ?thesis
    using assms(1,4) w by (simp add: colify_unfold colify_columns_def)
qed

theorem colify_planner_width_witness:
  "colify (PyFile False) (24, 80) [''a'', ''b'']
       [(''width'', PyInt 0), (''indent'', PyInt 4), (''tty'', PyBool True)]
     = (case choose_method (PyStr ''variable'') [''a'', ''b''] 76 (PyInt 2) of
          Inl e \<Rightarrow> (Inl e, [])
        | Inr config \<Rightarrow> render (PyFile False) [''a'', ''b''] 4 config)"
proof -
  let ?opts = "[(''width'', PyInt 0), (''indent'', PyInt 4), (''tty'', PyBool True)]"
  have "unknown_options ?opts = []"
    by (simp add: unknown_options_def option_names_def)
  moreover have "truthy (option_value ''tty'' PyNone ?opts)"
    and "as_int (option_value ''indent'' (PyInt 0) ?opts) = Inr 4"
    and "option_value ''width'' PyNone ?opts = PyInt 0"
    and "option_value ''method'' (PyStr ''variable'') ?opts = PyStr ''variable''"
    and "option_value ''padding'' (PyInt 2) ?opts = PyInt 2"
    and "option_value ''output'' (PyFile False) ?opts = PyFile False"
    by (simp_all add: option_value_def)
  ultimately show ?thesis
    using colify_planner_width [of ?opts "[''a'', ''b'']" "PyFile False" 4 80 "(24, 80)"]
    by (simp cong: sum.case_cong)
qed

end
